theory Spec2Isabelle
  imports Complex_Main
begin

section \<open>JavaScript values seen by the pool\<close>

text \<open>
  A JavaScript number is a finite double (given by its exact rational value; the two
  zeros behave alike in every test the pool makes), an infinity or NaN.
\<close>

datatype js_number = Finite rat | PosInfinity | NegInfinity | NaN

text \<open>
  The values a caller can pass in any argument position. \<open>JFunction f\<close> is a callable
  with behaviour \<open>f\<close>; \<open>JIterable xs\<close> is an object with a \<open>Symbol.iterator\<close> method (an
  array, a Set, a generator object) that yields \<open>xs\<close>; \<open>JAsyncIterable xs\<close> is an object
  with a \<open>Symbol.asyncIterator\<close> method. \<open>JSymbol n\<close> is the symbol of identity \<open>n\<close>:
  two symbols are strictly equal only when they are the same symbol, whatever their
  description. \<open>JObject n\<close> is any other object. A non-empty string, which JavaScript
  iterates by characters, is passed as the \<open>JIterable\<close> of its characters when it is
  the input.
\<close>

datatype ('t, 'f) js_value =
    JUndefined
  | JNull
  | JBoolean bool
  | JNumber js_number
  | JString string
  | JSymbol nat
  | JObject nat
  | JFunction 'f
  | JIterable "'t list"
  | JAsyncIterable "'t list"

fun typeof :: "('t, 'f) js_value \<Rightarrow> string" where
  "typeof JUndefined = ''undefined''"
| "typeof JNull = ''object''"
| "typeof (JBoolean b) = ''boolean''"
| "typeof (JNumber n) = ''number''"
| "typeof (JString s) = ''string''"
| "typeof (JSymbol n) = ''symbol''"
| "typeof (JObject n) = ''object''"
| "typeof (JFunction f) = ''function''"
| "typeof (JIterable xs) = ''object''"
| "typeof (JAsyncIterable xs) = ''object''"

text \<open>ToBoolean: what \<open>assert(v)\<close>, \<open>!v\<close> and \<open>if (v)\<close> test.\<close>

fun truthy :: "('t, 'f) js_value \<Rightarrow> bool" where
  "truthy JUndefined = False"
| "truthy JNull = False"
| "truthy (JBoolean b) = b"
| "truthy (JNumber (Finite r)) = (r \<noteq> 0)"
| "truthy (JNumber PosInfinity) = True"
| "truthy (JNumber NegInfinity) = True"
| "truthy (JNumber NaN) = False"
| "truthy (JString s) = (s \<noteq> [])"
| "truthy (JSymbol n) = True"
| "truthy (JObject n) = True"
| "truthy (JFunction f) = True"
| "truthy (JIterable xs) = True"
| "truthy (JAsyncIterable xs) = True"

text \<open>The comparisons \<open>n > 0\<close> and \<open>n <= 0\<close> on numbers: both are false on NaN.\<close>

fun gt_zero :: "js_number \<Rightarrow> bool" where
  "gt_zero (Finite r) = (0 < r)"
| "gt_zero PosInfinity = True"
| "gt_zero NegInfinity = False"
| "gt_zero NaN = False"

fun le_zero :: "js_number \<Rightarrow> bool" where
  "le_zero (Finite r) = (r \<le> 0)"
| "le_zero PosInfinity = False"
| "le_zero NegInfinity = True"
| "le_zero NaN = False"

fun is_positive_number :: "('t, 'f) js_value \<Rightarrow> bool" where
  "is_positive_number (JNumber n) = gt_zero n"
| "is_positive_number v = False"

fun is_number_not_le_zero :: "('t, 'f) js_value \<Rightarrow> bool" where
  "is_number_not_le_zero (JNumber n) = (\<not> le_zero n)"
| "is_number_not_le_zero v = False"

text \<open>
  \<open>POOL_STOP_SIGNAL = Symbol('POOL_STOP_SIGNAL')\<close>: the one symbol created when the
  module is loaded, here the symbol of identity 0.
\<close>

type_synonym action = "(unit, unit) js_value"

definition POOL_STOP_SIGNAL :: action where
  "POOL_STOP_SIGNAL = JSymbol 0"

text \<open>Why a call can be rejected.\<close>

datatype 'e failure =
    AssertionError string
  | TypeError
  | RangeError
  | Thrown 'e

section \<open>Validation\<close>

text \<open>
  \<open>_validateInput\<close> of \<open>index.ts\<close>: four asserts in order; the first that fails
  throws an AssertionError with its message. \<open>None\<close> is the normal return.
\<close>

definition validateInput ::
  "('t, 'a) js_value \<Rightarrow> ('t, 'b) js_value \<Rightarrow> ('t, 'c) js_value \<Rightarrow> ('t, 'd) js_value
     \<Rightarrow> 'e failure option" where
  "validateInput input iteratorFn concurrency errorHandler =
     (if \<not> truthy input then Some (AssertionError ''input is required'')
      else if \<not> (typeof iteratorFn = ''function'')
        then Some (AssertionError ''iteratorFn must be a function'')
      else if \<not> (typeof concurrency = ''number'' \<and> is_positive_number concurrency)
        then Some (AssertionError ''concurrency must be a positive number'')
      else if \<not> (\<not> truthy errorHandler \<or> typeof errorHandler = ''function'')
        then Some (AssertionError ''errorHandler must be a function'')
      else None)"

text \<open>
  The variant of \<open>_validateInput\<close> that returns the error instead of throwing it
  (the options-object version of the module). Its third test is written with
  \<open><=\<close>, so NaN passes it.
\<close>

definition validateInput_returning ::
  "('t, 'a) js_value \<Rightarrow> ('t, 'b) js_value \<Rightarrow> ('t, 'c) js_value \<Rightarrow> ('t, 'd) js_value
     \<Rightarrow> string option" where
  "validateInput_returning input iteratorFn concurrency errorHandler =
     (if \<not> truthy input then Some ''input is required''
      else if typeof iteratorFn \<noteq> ''function'' then Some ''iteratorFn must be a function''
      else if typeof concurrency \<noteq> ''number'' \<or> \<not> is_number_not_le_zero concurrency
        then Some ''concurrency must be a positive number''
      else if truthy errorHandler \<and> typeof errorHandler \<noteq> ''function''
        then Some ''errorHandler must be a function''
      else None)"

section \<open>The pool\<close>

text \<open>
  Where a worker is suspended. The position of an item in the input is carried beside
  the item, to tell equal items apart.
  \<^item> \<open>AwaitNext v\<close>: at \<open>await iterable.next()\<close>; \<open>next()\<close> has been called and has
    handed out \<open>v\<close> (\<open>None\<close> is \<open>done\<close>);
  \<^item> \<open>AwaitOp i item\<close>: at \<open>await iteratorFn(item)\<close>;
  \<^item> \<open>AwaitHandler err i item\<close>: at \<open>await errorHandler(err, item)\<close>;
  \<^item> \<open>Fulfilled\<close>: the worker has left its loop;
  \<^item> \<open>Rejected e\<close>: the worker's promise is rejected with \<open>e\<close>.
\<close>

datatype ('t, 'e) worker =
    AwaitNext "(nat \<times> 't) option"
  | AwaitOp nat 't
  | AwaitHandler 'e nat 't
  | Fulfilled
  | Rejected 'e

text \<open>
  What caller code and the iterator see happen: worker \<open>k\<close> took position \<open>i\<close> from
  the iterator, called the operation on it, called the handler for it, and the
  handler's promise settled.
\<close>

datatype event =
    Pulled nat nat
  | OpCalled nat nat
  | HandlerCalled nat nat
  | HandlerSettled nat nat

text \<open>
  The variables the workers share: the iterator (its sequence and how many items it
  has handed out), the three arrays, the flag, the workers' promises, the first
  rejection among them (what \<open>Promise.all\<close> rejects with) and the events so far.
\<close>

record ('t, 'r, 'e) pool =
  items :: "'t list"
  cursor :: nat
  results :: "'r list"
  failedItems :: "'t list"
  errors :: "'e list"
  isAborted :: bool
  workers :: "('t, 'e) worker list"
  rejection :: "'e option"
  trace :: "event list"

text \<open>\<open>iterable.next()\<close>, called by worker \<open>k\<close>.\<close>

definition next_item ::
  "nat \<Rightarrow> ('t, 'r, 'e) pool \<Rightarrow> (nat \<times> 't) option \<times> ('t, 'r, 'e) pool" where
  "next_item k s =
     (if cursor s < length (items s)
      then (Some (cursor s, items s ! cursor s),
            s\<lparr>cursor := Suc (cursor s), trace := trace s @ [Pulled k (cursor s)]\<rparr>)
      else (None, s))"

text \<open>
  The head of the loop: \<open>while (!isAborted) { ... await iterable.next()\<close>. The test
  and the call of \<open>next()\<close> run without suspension between them.
\<close>

definition loop_head ::
  "nat \<Rightarrow> ('t, 'r, 'e) pool \<Rightarrow> ('t, 'e) worker \<times> ('t, 'r, 'e) pool" where
  "loop_head k s =
     (if isAborted s then (Fulfilled, s)
      else (case next_item k s of (v, s') \<Rightarrow> (AwaitNext v, s')))"

text \<open>
  Worker \<open>k\<close> resumes from its await and runs to its next await, or to the end of
  its function. JavaScript runs this without interleaving.
\<close>

fun resume ::
  "('t \<Rightarrow> 'e + 'r) \<Rightarrow> ('e \<Rightarrow> 't \<Rightarrow> 'e + action) option \<Rightarrow> nat \<Rightarrow> ('t, 'e) worker
     \<Rightarrow> ('t, 'r, 'e) pool \<Rightarrow> ('t, 'e) worker \<times> ('t, 'r, 'e) pool" where
  "resume iteratorFn errorHandler k (AwaitNext None) s = (Fulfilled, s)"
| "resume iteratorFn errorHandler k (AwaitNext (Some (i, item))) s =
     (if isAborted s then (Fulfilled, s)
      else (AwaitOp i item, s\<lparr>trace := trace s @ [OpCalled k i]\<rparr>))"
| "resume iteratorFn errorHandler k (AwaitOp i item) s =
     (case iteratorFn item of
        Inr res \<Rightarrow>
          loop_head k (if \<not> isAborted s then s\<lparr>results := results s @ [res]\<rparr> else s)
      | Inl err \<Rightarrow>
          (let s' = s\<lparr>errors := errors s @ [err], failedItems := failedItems s @ [item]\<rparr>
           in case errorHandler of
                None \<Rightarrow> loop_head k s'
              | Some h \<Rightarrow>
                  (AwaitHandler err i item, s'\<lparr>trace := trace s' @ [HandlerCalled k i]\<rparr>)))"
| "resume iteratorFn errorHandler k (AwaitHandler err i item) s =
     (case errorHandler of
        None \<Rightarrow> (AwaitHandler err i item, s)
      | Some h \<Rightarrow>
          (let s' = s\<lparr>trace := trace s @ [HandlerSettled k i]\<rparr>
           in case h err item of
                Inl e \<Rightarrow>
                  (Rejected e,
                   s'\<lparr>rejection := (case rejection s' of None \<Rightarrow> Some e | Some r \<Rightarrow> Some r)\<rparr>)
              | Inr action \<Rightarrow>
                  loop_head k (if action = POOL_STOP_SIGNAL then s'\<lparr>isAborted := True\<rparr> else s')))"
| "resume iteratorFn errorHandler k Fulfilled s = (Fulfilled, s)"
| "resume iteratorFn errorHandler k (Rejected e) s = (Rejected e, s)"

definition set_worker ::
  "nat \<Rightarrow> ('t, 'e) worker \<times> ('t, 'r, 'e) pool \<Rightarrow> ('t, 'r, 'e) pool" where
  "set_worker k ws = (case ws of (w, s) \<Rightarrow> s\<lparr>workers := (workers s)[k := w]\<rparr>)"

text \<open>One scheduling step: the promise worker \<open>k\<close> awaits settles and the worker runs.\<close>

definition step ::
  "('t \<Rightarrow> 'e + 'r) \<Rightarrow> ('e \<Rightarrow> 't \<Rightarrow> 'e + action) option \<Rightarrow> nat
     \<Rightarrow> ('t, 'r, 'e) pool \<Rightarrow> ('t, 'r, 'e) pool" where
  "step iteratorFn errorHandler k s =
     (if k < length (workers s)
      then set_worker k (resume iteratorFn errorHandler k (workers s ! k) s)
      else s)"

text \<open>
  A schedule lists which worker resumes next; every interleaving of the workers is
  some schedule. An operation or handler that never settles is a worker the
  schedule never names again.
\<close>

primrec run ::
  "('t \<Rightarrow> 'e + 'r) \<Rightarrow> ('e \<Rightarrow> 't \<Rightarrow> 'e + action) option \<Rightarrow> nat list
     \<Rightarrow> ('t, 'r, 'e) pool \<Rightarrow> ('t, 'r, 'e) pool" where
  "run iteratorFn errorHandler [] s = s"
| "run iteratorFn errorHandler (k # sched) s =
     run iteratorFn errorHandler sched (step iteratorFn errorHandler k s)"

text \<open>The state before any worker exists.\<close>

definition init :: "'t list \<Rightarrow> ('t, 'r, 'e) pool" where
  "init xs = \<lparr>items = xs, cursor = 0, results = [], failedItems = [], errors = [],
              isAborted = False, workers = [], rejection = None, trace = []\<rparr>"

text \<open>
  \<open>Array.from({ length: concurrency }, worker)\<close> calls \<open>worker()\<close> once per index;
  each call runs to its first await before the next one starts.
\<close>

definition spawn :: "('t, 'r, 'e) pool \<Rightarrow> ('t, 'r, 'e) pool" where
  "spawn s =
     (case loop_head (length (workers s)) s of
        (w, s') \<Rightarrow> s'\<lparr>workers := workers s' @ [w]\<rparr>)"

primrec launch :: "nat \<Rightarrow> ('t, 'r, 'e) pool \<Rightarrow> ('t, 'r, 'e) pool" where
  "launch 0 s = s"
| "launch (Suc n) s = spawn (launch n s)"

text \<open>The object the call resolves with.\<close>

record ('t, 'r, 'e) outcome =
  out_results :: "'r list"
  out_errors :: "'e list"
  out_failedItems :: "'t list"
  stoppedPrematurely :: bool

datatype ('t, 'r, 'e) status =
    Pending
  | Returned "('t, 'r, 'e) outcome"
  | Raised "'e failure"

fun is_Fulfilled :: "('t, 'e) worker \<Rightarrow> bool" where
  "is_Fulfilled Fulfilled = True"
| "is_Fulfilled w = False"

text \<open>
  \<open>await Promise.all(workers)\<close> and the return: rejected with the first rejection
  of a worker, resolved once every worker is fulfilled, pending otherwise.
\<close>

definition settle :: "('t, 'r, 'e) pool \<Rightarrow> ('t, 'r, 'e) status" where
  "settle s =
     (case rejection s of
        Some e \<Rightarrow> Raised (Thrown e)
      | None \<Rightarrow>
          if list_all is_Fulfilled (workers s)
          then Returned \<lparr>out_results = results s, out_errors = errors s,
                         out_failedItems = failedItems s, stoppedPrematurely = isAborted s\<rparr>
          else Pending)"

section \<open>The call\<close>

text \<open>The default parameter \<open>concurrency = 2\<close> replaces \<open>undefined\<close>.\<close>

fun default_concurrency :: "('t, 'c) js_value \<Rightarrow> ('t, 'c) js_value" where
  "default_concurrency JUndefined = JNumber (Finite 2)"
| "default_concurrency v = v"

text \<open>
  The iterator of lines 33 to 35: of the async iterable when the input has
  \<open>Symbol.asyncIterator\<close>, else of \<open>Symbol.iterator\<close>; a value with neither makes the
  call of the missing method throw a TypeError.
\<close>

fun iterator_of :: "('t, 'a) js_value \<Rightarrow> 't list option" where
  "iterator_of (JAsyncIterable xs) = Some xs"
| "iterator_of (JIterable xs) = Some xs"
| "iterator_of v = None"

text \<open>
  The length of \<open>Array.from({ length: concurrency }, ...)\<close>: ToLength truncates and
  clamps to \<open>0 .. 2^53 - 1\<close>; creating an array longer than \<open>2^32 - 1\<close> throws a
  RangeError (\<open>None\<close>). Validation lets only numbers reach this point.
\<close>

fun to_length :: "js_number \<Rightarrow> nat" where
  "to_length (Finite r) = (if r \<le> 0 then 0 else min (nat \<lfloor>r\<rfloor>) (2 ^ 53 - 1))"
| "to_length PosInfinity = 2 ^ 53 - 1"
| "to_length NegInfinity = 0"
| "to_length NaN = 0"

fun array_length :: "('t, 'c) js_value \<Rightarrow> nat option" where
  "array_length (JNumber n) = (if to_length n \<le> 2 ^ 32 - 1 then Some (to_length n) else None)"
| "array_length v = Some 0"

fun handler_of :: "('t, 'h) js_value \<Rightarrow> 'h option" where
  "handler_of (JFunction h) = Some h"
| "handler_of v = None"

text \<open>
  What an observer of a call sees: how the promise stands after the schedule, how many
  items have been taken from the input, and the events.
\<close>

record ('t, 'r, 'e) call =
  status :: "('t, 'r, 'e) status"
  consumed :: nat
  events :: "event list"

definition observe :: "('t, 'r, 'e) pool \<Rightarrow> ('t, 'r, 'e) call" where
  "observe s = \<lparr>status = settle s, consumed = cursor s, events = trace s\<rparr>"

definition failed_call :: "'e failure \<Rightarrow> ('t, 'r, 'e) call" where
  "failed_call f = \<lparr>status = Raised f, consumed = 0, events = []\<rparr>"

text \<open>\<open>promisePool\<close> of \<open>index.ts\<close>, observed after the schedule \<open>sched\<close>.\<close>

definition promisePool ::
  "('t, 'a) js_value \<Rightarrow> ('t, 't \<Rightarrow> 'e + 'r) js_value \<Rightarrow> ('t, 'c) js_value
     \<Rightarrow> ('t, 'e \<Rightarrow> 't \<Rightarrow> 'e + action) js_value \<Rightarrow> nat list \<Rightarrow> ('t, 'r, 'e) call" where
  "promisePool input iteratorFn concurrency0 errorHandler sched =
     (let concurrency = default_concurrency concurrency0 in
      case validateInput input iteratorFn concurrency errorHandler of
        Some f \<Rightarrow> failed_call f
      | None \<Rightarrow>
          (case iterator_of input of
             None \<Rightarrow> failed_call TypeError
           | Some xs \<Rightarrow>
               (case array_length concurrency of
                  None \<Rightarrow> failed_call RangeError
                | Some n \<Rightarrow>
                    (case iteratorFn of
                       JFunction f \<Rightarrow>
                         observe (run f (handler_of errorHandler) sched (launch n (init xs)))
                     | _ \<Rightarrow> failed_call TypeError))))"

section \<open>Bookkeeping predicates\<close>

text \<open>Errors and failed items answer each other by index.\<close>

definition paired :: "('t \<Rightarrow> 'e + 'r) \<Rightarrow> ('t, 'r, 'e) pool \<Rightarrow> bool" where
  "paired iteratorFn s = list_all2 (\<lambda>e x. iteratorFn x = Inl e) (errors s) (failedItems s)"

text \<open>A worker that holds an item whose outcome is not yet in an array.\<close>

fun holding :: "('t, 'e) worker \<Rightarrow> nat" where
  "holding (AwaitNext (Some v)) = 1"
| "holding (AwaitOp i item) = 1"
| "holding w = 0"

definition in_flight :: "('t, 'r, 'e) pool \<Rightarrow> nat" where
  "in_flight s = sum_list (map holding (workers s))"

definition counted :: "('t, 'r, 'e) pool \<Rightarrow> bool" where
  "counted s \<longleftrightarrow>
     cursor s \<le> length (items s)
     \<and> length (results s) + length (errors s) + in_flight s \<le> cursor s
     \<and> (\<not> isAborted s \<longrightarrow> length (results s) + length (errors s) + in_flight s = cursor s)"

text \<open>Without an abort, a worker leaves its loop only when the input is exhausted.\<close>

definition drained :: "('t, 'r, 'e) pool \<Rightarrow> bool" where
  "drained s \<longleftrightarrow>
     (\<not> isAborted s \<longrightarrow>
        (\<forall>j < length (workers s).
           workers s ! j = Fulfilled \<or> workers s ! j = AwaitNext None
             \<longrightarrow> cursor s = length (items s)))"

text \<open>The handler never answers with the stop signal (or there is no handler).\<close>

definition never_stops :: "('e \<Rightarrow> 't \<Rightarrow> 'e + action) option \<Rightarrow> bool" where
  "never_stops errorHandler \<longleftrightarrow>
     (case errorHandler of None \<Rightarrow> True
      | Some h \<Rightarrow> \<forall>e x. h e x \<noteq> Inr POOL_STOP_SIGNAL)"

fun is_HandlerCalled :: "event \<Rightarrow> bool" where
  "is_HandlerCalled (HandlerCalled k i) = True"
| "is_HandlerCalled ev = False"

fun is_HandlerSettled :: "event \<Rightarrow> bool" where
  "is_HandlerSettled (HandlerSettled k i) = True"
| "is_HandlerSettled ev = False"

fun awaiting_handler :: "('t, 'e) worker \<Rightarrow> nat" where
  "awaiting_handler (AwaitHandler err i item) = 1"
| "awaiting_handler w = 0"

text \<open>Handler calls are those that have settled plus those a worker still awaits.\<close>

definition handlers_balanced ::
  "('e \<Rightarrow> 't \<Rightarrow> 'e + action) option \<Rightarrow> ('t, 'r, 'e) pool \<Rightarrow> bool" where
  "handlers_balanced errorHandler s \<longleftrightarrow>
     length (filter is_HandlerCalled (trace s)) =
       length (filter is_HandlerSettled (trace s)) + sum_list (map awaiting_handler (workers s))
     \<and> length (filter is_HandlerCalled (trace s)) =
         (case errorHandler of None \<Rightarrow> 0 | Some h \<Rightarrow> length (errors s))"

text \<open>A rejection of the pool is a value the handler raised.\<close>

definition rejection_from_handler ::
  "('e \<Rightarrow> 't \<Rightarrow> 'e + action) option \<Rightarrow> ('t, 'r, 'e) pool \<Rightarrow> bool" where
  "rejection_from_handler errorHandler s \<longleftrightarrow>
     (\<forall>e. rejection s = Some e \<longrightarrow>
        (\<exists>h err item. errorHandler = Some h \<and> h err item = Inl e))"

text \<open>Which worker took which position, and which worker called the operation on which.\<close>

fun pulls :: "event list \<Rightarrow> (nat \<times> nat) list" where
  "pulls [] = []"
| "pulls (Pulled k i # tr) = (k, i) # pulls tr"
| "pulls (ev # tr) = pulls tr"

fun calls :: "event list \<Rightarrow> (nat \<times> nat) list" where
  "calls [] = []"
| "calls (OpCalled k i # tr) = (k, i) # calls tr"
| "calls (ev # tr) = calls tr"

definition dispatch_ok :: "event list \<Rightarrow> nat \<Rightarrow> ('t, 'e) worker list \<Rightarrow> bool" where
  "dispatch_ok tr c ws \<longleftrightarrow>
     map snd (pulls tr) = [0..<c]
     \<and> distinct (map snd (calls tr))
     \<and> set (calls tr) \<subseteq> set (pulls tr)
     \<and> (\<forall>j < length ws. \<forall>i x. ws ! j = AwaitNext (Some (i, x))
           \<longrightarrow> (j, i) \<in> set (pulls tr) \<and> i \<notin> snd ` set (calls tr))"

definition dispatched :: "('t, 'r, 'e) pool \<Rightarrow> bool" where
  "dispatched s = dispatch_ok (trace s) (cursor s) (workers s)"

text \<open>The item a worker holds is the item at the position it holds.\<close>

fun linked :: "'t list \<Rightarrow> ('t, 'e) worker \<Rightarrow> bool" where
  "linked xs (AwaitNext (Some (i, x))) = (i < length xs \<and> x = xs ! i)"
| "linked xs (AwaitOp i x) = (i < length xs \<and> x = xs ! i)"
| "linked xs (AwaitHandler err i x) = (i < length xs \<and> x = xs ! i)"
| "linked xs w = True"

definition items_linked :: "('t, 'r, 'e) pool \<Rightarrow> bool" where
  "items_linked s \<longleftrightarrow> list_all (linked (items s)) (workers s)"

text \<open>
  Every call of the operation that fails is in \<open>errors\<close>, or its worker still awaits it.
\<close>

fun failing_op :: "('t \<Rightarrow> 'e + 'r) \<Rightarrow> ('t, 'e) worker \<Rightarrow> nat" where
  "failing_op f (AwaitOp i x) = (if isl (f x) then 1 else 0)"
| "failing_op f w = 0"

definition failures_recorded :: "('t \<Rightarrow> 'e + 'r) \<Rightarrow> ('t, 'r, 'e) pool \<Rightarrow> bool" where
  "failures_recorded f s \<longleftrightarrow>
     length (errors s) + sum_list (map (failing_op f) (workers s)) =
       length (filter (\<lambda>ki. isl (f (items s ! snd ki))) (calls (trace s)))"

text \<open>Everything the bookkeeping keeps, together.\<close>

definition sound ::
  "('t \<Rightarrow> 'e + 'r) \<Rightarrow> ('e \<Rightarrow> 't \<Rightarrow> 'e + action) option \<Rightarrow> ('t, 'r, 'e) pool \<Rightarrow> bool" where
  "sound f h s \<longleftrightarrow>
     paired f s \<and> counted s \<and> drained s \<and> handlers_balanced h s
     \<and> rejection_from_handler h s \<and> dispatched s \<and> items_linked s \<and> failures_recorded f s"

section \<open>Sample operations, handlers and states\<close>

text \<open>
  The operations and handlers of the module's tests: an operation that throws on one
  item, one that always throws, a handler that answers with the stop signal and one
  that returns nothing; and a state in which the flag is set while worker 0 still
  awaits its operation.
\<close>

definition boom_on_two :: "nat \<Rightarrow> string + nat" where
  "boom_on_two x = (if x = 2 then Inl ''Boom'' else Inr (x * 2))"

definition always_fails :: "nat \<Rightarrow> string + nat" where
  "always_fails x = Inl ''Stop''"

definition stop_handler :: "string \<Rightarrow> nat \<Rightarrow> string + action" where
  "stop_handler e x = Inr POOL_STOP_SIGNAL"

definition quiet_handler :: "string \<Rightarrow> nat \<Rightarrow> string + action" where
  "quiet_handler e x = Inr JUndefined"

definition aborted_with_op :: "(nat, nat, string) pool" where
  "aborted_with_op =
     \<lparr>items = [1, 2, 3], cursor = 2, results = [], failedItems = [2],
      errors = [''Boom''], isAborted = True, workers = [AwaitOp 0 1, Fulfilled],
      rejection = None,
      trace = [Pulled 0 0, Pulled 1 1, OpCalled 0 0, OpCalled 1 1,
               HandlerCalled 1 1, HandlerSettled 1 1]\<rparr>"

text \<open>A state in which worker 1 awaits the handler for the item that failed.\<close>

definition awaiting_stop :: "(nat, nat, string) pool" where
  "awaiting_stop =
     \<lparr>items = [1, 2, 3], cursor = 2, results = [], failedItems = [2],
      errors = [''Boom''], isAborted = False,
      workers = [AwaitOp 0 1, AwaitHandler ''Boom'' 1 2], rejection = None,
      trace = [Pulled 0 0, Pulled 1 1, OpCalled 0 0, OpCalled 1 1, HandlerCalled 1 1]\<rparr>"

section \<open>Evaluating the call on concrete arguments\<close>

lemma floor_five_halves: "\<lfloor>5 / 2 :: rat\<rfloor> = 2"
  by (rule floor_unique) simp_all

lemma array_length_five_halves:
  "array_length (JNumber (Finite (5 / 2)) :: ('t, 'c) js_value) = Some 2"
  by (simp add: floor_five_halves)

lemma launch_1: "launch (Suc 0) s = spawn s"
  by simp

lemma launch_2: "launch 2 s = spawn (spawn s)"
  by (simp add: numeral_2_eq_2)

lemma is_positive_number_typeof: "is_positive_number v \<Longrightarrow> typeof v = ''number''"
  by (cases v) simp_all

lemmas eval_defs = init_def spawn_def loop_head_def next_item_def step_def set_worker_def
  launch_2 boom_on_two_def always_fails_def stop_handler_def quiet_handler_def
  POOL_STOP_SIGNAL_def Let_def

lemma run_no_handler:
  "run boom_on_two None [0, 1, 0, 1, 0, 0, 0, 1] (launch 2 (init [1, 2, 3])) =
     \<lparr>items = [1, 2, 3], cursor = 3, results = [2, 6], failedItems = [2],
      errors = [''Boom''], isAborted = False, workers = [Fulfilled, Fulfilled],
      rejection = None,
      trace = [Pulled 0 0, Pulled 1 1, OpCalled 0 0, OpCalled 1 1, Pulled 0 2, OpCalled 0 2]\<rparr>"
  by (simp add: eval_defs)

lemma run_quiet_handler:
  "run boom_on_two (Some quiet_handler) [0, 1, 0, 1, 1, 1, 0, 0, 0] (launch 2 (init [1, 2, 3])) =
     \<lparr>items = [1, 2, 3], cursor = 3, results = [2, 6], failedItems = [2],
      errors = [''Boom''], isAborted = False, workers = [Fulfilled, Fulfilled],
      rejection = None,
      trace = [Pulled 0 0, Pulled 1 1, OpCalled 0 0, OpCalled 1 1, Pulled 0 2,
               HandlerCalled 1 1, HandlerSettled 1 1, OpCalled 0 2]\<rparr>"
  by (simp add: eval_defs)

lemma run_stop_handler:
  "run boom_on_two (Some stop_handler) [0, 1, 1, 1] (launch 2 (init [1, 2, 3])) =
     \<lparr>items = [1, 2, 3], cursor = 2, results = [], failedItems = [2],
      errors = [''Boom''], isAborted = True, workers = [AwaitOp 0 1, Fulfilled],
      rejection = None,
      trace = [Pulled 0 0, Pulled 1 1, OpCalled 0 0, OpCalled 1 1,
               HandlerCalled 1 1, HandlerSettled 1 1]\<rparr>"
  by (simp add: eval_defs)

section \<open>Steps preserve the bookkeeping\<close>

lemma worker_cases:
  obtains (Done) "w = AwaitNext None"
  | (Item) i item where "w = AwaitNext (Some (i, item))"
  | (Op) i item where "w = AwaitOp i item"
  | (Handler) err i item where "w = AwaitHandler err i item"
  | (Fulfilled) "w = Fulfilled"
  | (Rejected) e where "w = Rejected e"
proof (cases w)
  case (AwaitNext v)
  then show ?thesis using Done Item by (cases v) auto
qed (use Op Handler Fulfilled Rejected in auto)

lemmas resume_defs = loop_head_def next_item_def Let_def

lemma resume_workers [simp]: "workers (snd (resume f h k w s)) = workers s"
  by (cases w rule: worker_cases) (auto simp: resume_defs split: option.splits sum.splits)

lemma resume_items [simp]: "items (snd (resume f h k w s)) = items s"
  by (cases w rule: worker_cases) (auto simp: resume_defs split: option.splits sum.splits)

lemma step_eq:
  "k < length (workers s) \<Longrightarrow>
     step f h k s = (snd (resume f h k (workers s ! k) s))
       \<lparr>workers := (workers s)[k := fst (resume f h k (workers s ! k) s)]\<rparr>"
  by (simp add: step_def set_worker_def case_prod_beta)

lemma step_out_of_range: "\<not> k < length (workers s) \<Longrightarrow> step f h k s = s"
  by (simp add: step_def)

lemma step_length_workers [simp]: "length (workers (step f h k s)) = length (workers s)"
  by (cases "k < length (workers s)") (simp_all add: step_eq step_out_of_range)

lemma step_items [simp]: "items (step f h k s) = items s"
  by (cases "k < length (workers s)") (simp_all add: step_eq step_out_of_range)

lemma sum_list_map_update:
  "k < length ws \<Longrightarrow>
     sum_list (map f (ws[k := w])) + f (ws ! k) = sum_list (map f ws) + (f w :: nat)"
  by (induction ws arbitrary: k) (auto split: nat.splits)

lemma nth_le_sum_list_map:
  "k < length ws \<Longrightarrow> (f (ws ! k) :: nat) \<le> sum_list (map f ws)"
  using elem_le_sum_list [of k "map f ws"] by simp

lemma sum_list_map_update_nat:
  "k < length ws \<Longrightarrow>
     sum_list (map f (ws[k := w])) = sum_list (map f ws) - f (ws ! k) + (f w :: nat)"
  using sum_list_map_update [of k ws f w] nth_le_sum_list_map [of k ws f] by arith

lemma step_paired: "paired f s \<Longrightarrow> paired f (step f h k s)"
proof (cases "k < length (workers s)")
  case True
  assume "paired f s"
  then show ?thesis
    unfolding paired_def
    by (cases "workers s ! k" rule: worker_cases)
      (auto simp: step_eq [OF True] resume_defs list_all2_appendI
        split: option.splits sum.splits)
qed (simp add: step_out_of_range)

lemma step_counted: "counted s \<Longrightarrow> counted (step f h k s)"
proof (cases "k < length (workers s)")
  case True
  assume c: "counted s"
  have le: "holding (workers s ! k) \<le> sum_list (map holding (workers s))"
    using True by (rule nth_le_sum_list_map)
  show ?thesis
    using c le True
    unfolding counted_def in_flight_def
    by (cases "workers s ! k" rule: worker_cases)
      (auto simp: step_eq sum_list_map_update_nat resume_defs split: option.splits sum.splits)
qed (simp add: step_out_of_range)

lemma step_stays_aborted: "isAborted s \<Longrightarrow> isAborted (step f h k s)"
proof (cases "k < length (workers s)")
  case True
  assume "isAborted s"
  then show ?thesis
    by (cases "workers s ! k" rule: worker_cases)
      (auto simp: step_eq [OF True] resume_defs split: option.splits sum.splits)
qed (simp add: step_out_of_range)

lemma step_not_aborted:
  "never_stops h \<Longrightarrow> \<not> isAborted s \<Longrightarrow> \<not> isAborted (step f h k s)"
proof (cases "k < length (workers s)")
  case True
  assume "never_stops h" and "\<not> isAborted s"
  then show ?thesis
    unfolding never_stops_def
    by (cases "workers s ! k" rule: worker_cases)
      (auto simp: step_eq [OF True] resume_defs split: option.splits sum.splits)
qed (simp add: step_out_of_range)

lemma step_drained:
  assumes "drained s" and "cursor s \<le> length (items s)"
  shows "drained (step f h k s)"
proof (cases "k < length (workers s)")
  case True
  show ?thesis
  proof (cases "isAborted s")
    case True
    then show ?thesis using step_stays_aborted [of s f h k] by (simp add: drained_def)
  next
    case False
    with assms True show ?thesis
      unfolding drained_def
      by (cases "workers s ! k" rule: worker_cases)
        (auto simp: step_eq resume_defs nth_list_update split: option.splits sum.splits)
  qed
qed (use assms in \<open>simp add: step_out_of_range\<close>)

lemma step_handlers_balanced:
  "handlers_balanced h s \<Longrightarrow> handlers_balanced h (step f h k s)"
proof (cases "k < length (workers s)")
  case True
  assume b: "handlers_balanced h s"
  have le: "awaiting_handler (workers s ! k) \<le> sum_list (map awaiting_handler (workers s))"
    using True by (rule nth_le_sum_list_map)
  show ?thesis
    using b le True
    unfolding handlers_balanced_def
    by (cases "workers s ! k" rule: worker_cases)
      (auto simp: step_eq sum_list_map_update_nat resume_defs split: option.splits sum.splits)
qed (simp add: step_out_of_range)

lemma step_rejection_from_handler:
  "rejection_from_handler h s \<Longrightarrow> rejection_from_handler h (step f h k s)"
proof (cases "k < length (workers s)")
  case True
  assume "rejection_from_handler h s"
  then show ?thesis
    unfolding rejection_from_handler_def
    by (cases "workers s ! k" rule: worker_cases)
      (auto simp: step_eq [OF True] resume_defs split: option.splits sum.splits)
qed (simp add: step_out_of_range)

lemma pulls_append [simp]: "pulls (tr @ tr') = pulls tr @ pulls tr'"
  by (induction tr rule: pulls.induct) simp_all

lemma calls_append [simp]: "calls (tr @ tr') = calls tr @ calls tr'"
  by (induction tr rule: calls.induct) simp_all

lemma pulled_once:
  "distinct (map snd ps) \<Longrightarrow> (a, i) \<in> set ps \<Longrightarrow> (b, i) \<in> set ps \<Longrightarrow> a = b"
  by (induction ps) (auto simp: image_iff)

lemma pulled_below:
  "map snd ps = [0..<c] \<Longrightarrow> (a, i) \<in> set ps \<Longrightarrow> i < c"
proof -
  assume m: "map snd ps = [0..<c]" and "(a, i) \<in> set ps"
  from this(2) have "snd (a, i) \<in> snd ` set ps" by (rule imageI)
  then have "i \<in> set (map snd ps)" by simp
  with m show ?thesis by simp
qed

lemma step_items_linked: "items_linked s \<Longrightarrow> items_linked (step f h k s)"
proof (cases "k < length (workers s)")
  case True
  assume l: "items_linked s"
  then have "linked (items s) (workers s ! k)"
    using True by (simp add: items_linked_def list_all_length)
  moreover have "list_all (linked (items s)) ((workers s)[k := w])" if "linked (items s) w" for w
    using l that True by (auto simp: items_linked_def list_all_length nth_list_update)
  ultimately show ?thesis
    unfolding items_linked_def
    by (cases "workers s ! k" rule: worker_cases)
      (auto simp: step_eq [OF True] resume_defs split: option.splits sum.splits)
qed (simp add: step_out_of_range)

lemma step_failures_recorded:
  assumes "failures_recorded f s" and "items_linked s"
  shows "failures_recorded f (step f h k s)"
proof (cases "k < length (workers s)")
  case True
  have le: "failing_op f (workers s ! k) \<le> sum_list (map (failing_op f) (workers s))"
    using True by (rule nth_le_sum_list_map)
  have "linked (items s) (workers s ! k)"
    using assms(2) True by (simp add: items_linked_def list_all_length)
  with assms(1) le True show ?thesis
    unfolding failures_recorded_def
    by (cases "workers s ! k" rule: worker_cases)
      (auto simp: step_eq sum_list_map_update_nat resume_defs split: option.splits sum.splits)
qed (use assms in \<open>simp add: step_out_of_range\<close>)

lemma dispatch_okI:
  assumes "map snd (pulls tr) = [0..<c]" and "distinct (map snd (calls tr))"
    and "set (calls tr) \<subseteq> set (pulls tr)"
    and "\<And>j i x. j < length ws \<Longrightarrow> ws ! j = AwaitNext (Some (i, x))
           \<Longrightarrow> (j, i) \<in> set (pulls tr) \<and> i \<notin> snd ` set (calls tr)"
  shows "dispatch_ok tr c ws"
  using assms unfolding dispatch_ok_def by blast

lemma dispatch_okD:
  assumes "dispatch_ok tr c ws"
  shows "map snd (pulls tr) = [0..<c]" and "distinct (map snd (calls tr))"
    and "set (calls tr) \<subseteq> set (pulls tr)"
    and "\<And>j i x. j < length ws \<Longrightarrow> ws ! j = AwaitNext (Some (i, x))
           \<Longrightarrow> (j, i) \<in> set (pulls tr) \<and> i \<notin> snd ` set (calls tr)"
  using assms unfolding dispatch_ok_def by blast+

lemma dispatch_other:
  assumes d: "dispatch_ok tr c ws" and p: "pulls tr' = pulls tr" and cl: "calls tr' = calls tr"
    and w: "\<And>v. w \<noteq> AwaitNext (Some v)"
  shows "dispatch_ok tr' c (ws[k := w])"
proof (rule dispatch_okI)
  fix j i x
  assume j: "j < length (ws[k := w])" and at: "ws[k := w] ! j = AwaitNext (Some (i, x))"
  have "j \<noteq> k"
  proof
    assume "j = k"
    with j at have "w = AwaitNext (Some (i, x))" by simp
    with w show False by blast
  qed
  with j at have "j < length ws" and "ws ! j = AwaitNext (Some (i, x))" by simp_all
  then show "(j, i) \<in> set (pulls tr') \<and> i \<notin> snd ` set (calls tr')"
    unfolding p cl by (rule dispatch_okD(4) [OF d])
qed (simp_all add: p cl dispatch_okD(1-3) [OF d])

lemma dispatch_pull:
  assumes d: "dispatch_ok tr c ws" and p: "pulls tr' = pulls tr @ [(k, c)]"
    and cl: "calls tr' = calls tr" and k: "k < length ws"
  shows "dispatch_ok tr' (Suc c) (ws[k := AwaitNext (Some (c, x))])"
proof (rule dispatch_okI)
  have below: "i < c" if "(a, i) \<in> set (pulls tr)" for a i
    using dispatch_okD(1) [OF d] that by (rule pulled_below)
  have fresh: "c \<notin> snd ` set (calls tr)"
  proof
    assume "c \<in> snd ` set (calls tr)"
    then obtain a where "(a, c) \<in> set (calls tr)" by auto
    with dispatch_okD(3) [OF d] have "(a, c) \<in> set (pulls tr)" by blast
    from below [OF this] show False by simp
  qed
  show "map snd (pulls tr') = [0..<Suc c]"
    by (simp add: p dispatch_okD(1) [OF d])
  show "distinct (map snd (calls tr'))"
    by (simp add: cl dispatch_okD(2) [OF d])
  show "set (calls tr') \<subseteq> set (pulls tr')"
    using dispatch_okD(3) [OF d] by (auto simp: p cl)
  fix j i y
  assume j: "j < length (ws[k := AwaitNext (Some (c, x))])"
    and at: "ws[k := AwaitNext (Some (c, x))] ! j = AwaitNext (Some (i, y))"
  show "(j, i) \<in> set (pulls tr') \<and> i \<notin> snd ` set (calls tr')"
  proof (cases "j = k")
    case True
    with j at have "i = c" by simp
    with True fresh show ?thesis by (simp add: p cl)
  next
    case False
    with j at have "j < length ws" and "ws ! j = AwaitNext (Some (i, y))" by simp_all
    then have "(j, i) \<in> set (pulls tr) \<and> i \<notin> snd ` set (calls tr)"
      by (rule dispatch_okD(4) [OF d])
    then show ?thesis by (simp add: p cl)
  qed
qed

lemma dispatch_call:
  assumes d: "dispatch_ok tr c ws" and p: "pulls tr' = pulls tr"
    and cl: "calls tr' = calls tr @ [(k, i)]" and k: "k < length ws"
    and w: "ws ! k = AwaitNext (Some (i, x))"
  shows "dispatch_ok tr' c (ws[k := AwaitOp i x])"
proof (rule dispatch_okI)
  have dist: "distinct (map snd (pulls tr))"
    by (simp add: dispatch_okD(1) [OF d])
  have mine: "(k, i) \<in> set (pulls tr) \<and> i \<notin> snd ` set (calls tr)"
    using k w by (rule dispatch_okD(4) [OF d])
  show "map snd (pulls tr') = [0..<c]"
    by (simp add: p dispatch_okD(1) [OF d])
  show "distinct (map snd (calls tr'))"
    using mine by (simp add: cl dispatch_okD(2) [OF d])
  show "set (calls tr') \<subseteq> set (pulls tr')"
    using dispatch_okD(3) [OF d] mine by (auto simp: p cl)
  fix j i' y
  assume j: "j < length (ws[k := AwaitOp i x])"
    and at: "ws[k := AwaitOp i x] ! j = AwaitNext (Some (i', y))"
  have ne: "j \<noteq> k"
  proof
    assume "j = k"
    with j at show False by simp
  qed
  with j at have "j < length ws" and "ws ! j = AwaitNext (Some (i', y))" by simp_all
  then have held: "(j, i') \<in> set (pulls tr) \<and> i' \<notin> snd ` set (calls tr)"
    by (rule dispatch_okD(4) [OF d])
  have "i' \<noteq> i"
  proof
    assume "i' = i"
    with held have "(j, i) \<in> set (pulls tr)" by simp
    from pulled_once [OF dist this] mine have "j = k" by blast
    with ne show False by simp
  qed
  with held show "(j, i') \<in> set (pulls tr') \<and> i' \<notin> snd ` set (calls tr')"
    by (simp add: p cl)
qed

lemma step_dispatched: "dispatched s \<Longrightarrow> dispatched (step f h k s)"
proof (cases "k < length (workers s)")
  case True
  assume "dispatched s"
  then have d: "dispatch_ok (trace s) (cursor s) (workers s)"
    by (simp add: dispatched_def)
  note rules = dispatch_other [OF d] dispatch_pull [OF d _ _ True] dispatch_call [OF d _ _ True]
  show ?thesis
    unfolding dispatched_def
    by (cases "workers s ! k" rule: worker_cases)
      (auto simp: step_eq [OF True] resume_defs split: option.splits sum.splits intro!: rules)
qed (simp add: step_out_of_range)

section \<open>Every reachable state keeps the bookkeeping\<close>

lemma counted_cursor: "counted s \<Longrightarrow> cursor s \<le> length (items s)"
  by (simp add: counted_def)

lemma step_sound: "sound f h s \<Longrightarrow> sound f h (step f h k s)"
  unfolding sound_def
  by (simp add: counted_cursor step_paired step_counted step_drained step_handlers_balanced
      step_rejection_from_handler step_dispatched step_items_linked step_failures_recorded)

lemma run_sound: "sound f h s \<Longrightarrow> sound f h (run f h sched s)"
  by (induction sched arbitrary: s) (simp_all add: step_sound)

lemma init_sound: "sound f h (init xs)"
  by (simp add: sound_def init_def paired_def counted_def in_flight_def drained_def
      handlers_balanced_def rejection_from_handler_def dispatched_def dispatch_ok_def
      items_linked_def failures_recorded_def split: option.splits)

lemma spawn_eq:
  "spawn s = (snd (loop_head (length (workers s)) s))
       \<lparr>workers := workers s @ [fst (loop_head (length (workers s)) s)]\<rparr>"
  by (simp add: spawn_def case_prod_beta resume_defs)

lemma spawn_paired: "paired f s \<Longrightarrow> paired f (spawn s)"
  by (simp add: spawn_eq paired_def resume_defs)

lemma spawn_counted: "counted s \<Longrightarrow> counted (spawn s)"
  by (auto simp: spawn_eq counted_def in_flight_def resume_defs)

lemma spawn_drained: "drained s \<Longrightarrow> cursor s \<le> length (items s) \<Longrightarrow> drained (spawn s)"
  by (auto simp: spawn_eq drained_def resume_defs nth_append)

lemma spawn_handlers_balanced: "handlers_balanced h s \<Longrightarrow> handlers_balanced h (spawn s)"
  by (auto simp: spawn_eq handlers_balanced_def resume_defs split: option.splits)

lemma spawn_rejection_from_handler:
  "rejection_from_handler h s \<Longrightarrow> rejection_from_handler h (spawn s)"
  by (auto simp: spawn_eq rejection_from_handler_def resume_defs)

lemma spawn_items_linked: "items_linked s \<Longrightarrow> items_linked (spawn s)"
  by (auto simp: spawn_eq items_linked_def resume_defs)

lemma spawn_failures_recorded: "failures_recorded f s \<Longrightarrow> failures_recorded f (spawn s)"
  by (auto simp: spawn_eq failures_recorded_def resume_defs)

lemma dispatch_ok_snoc:
  assumes d: "dispatch_ok tr c ws"
  shows "dispatch_ok tr c (ws @ [Fulfilled])"
proof (rule dispatch_okI)
  fix j i x
  assume j: "j < length (ws @ [Fulfilled])" and at: "(ws @ [Fulfilled]) ! j = AwaitNext (Some (i, x))"
  have "j < length ws"
  proof (rule ccontr)
    assume "\<not> j < length ws"
    with j have "j = length ws" by simp
    with at show False by simp
  qed
  moreover from this at have "ws ! j = AwaitNext (Some (i, x))" by (simp add: nth_append)
  ultimately show "(j, i) \<in> set (pulls tr) \<and> i \<notin> snd ` set (calls tr)"
    by (rule dispatch_okD(4) [OF d])
qed (simp_all add: dispatch_okD(1-3) [OF d])

lemma spawn_dispatched: "dispatched s \<Longrightarrow> dispatched (spawn s)"
proof -
  let ?k = "length (workers s)"
  assume "dispatched s"
  then have d: "dispatch_ok (trace s) (cursor s) (workers s @ [Fulfilled])"
    by (simp add: dispatched_def dispatch_ok_snoc)
  have k: "?k < length (workers s @ [Fulfilled])" by simp
  have upd: "(workers s @ [Fulfilled])[?k := w] = workers s @ [w]" for w
    by simp
  consider (aborted) "isAborted s"
    | (pull) "\<not> isAborted s" and "cursor s < length (items s)"
    | (exhausted) "\<not> isAborted s" and "\<not> cursor s < length (items s)"
    by blast
  then show ?thesis
  proof cases
    case aborted
    with d show ?thesis by (simp add: spawn_eq dispatched_def resume_defs)
  next
    case pull
    have "dispatch_ok (trace s @ [Pulled ?k (cursor s)]) (Suc (cursor s))
            ((workers s @ [Fulfilled])[?k := AwaitNext (Some (cursor s, items s ! cursor s))])"
      using d _ _ k by (rule dispatch_pull) simp_all
    with pull show ?thesis by (simp add: spawn_eq dispatched_def resume_defs)
  next
    case exhausted
    have "dispatch_ok (trace s) (cursor s) ((workers s @ [Fulfilled])[?k := AwaitNext None])"
      using d by (rule dispatch_other) simp_all
    with exhausted show ?thesis by (simp add: spawn_eq dispatched_def resume_defs)
  qed
qed

lemma spawn_sound: "sound f h s \<Longrightarrow> sound f h (spawn s)"
  unfolding sound_def
  by (simp add: counted_cursor spawn_paired spawn_counted spawn_drained spawn_handlers_balanced
      spawn_rejection_from_handler spawn_dispatched spawn_items_linked spawn_failures_recorded)

lemma launch_sound: "sound f h s \<Longrightarrow> sound f h (launch n s)"
  by (induction n) (simp_all add: spawn_sound)

lemma reachable_sound: "sound f h (run f h sched (launch n (init xs)))"
  by (simp add: run_sound launch_sound init_sound)

section \<open>Reachable states and the returned outcome\<close>

lemma run_length_workers [simp]: "length (workers (run f h sched s)) = length (workers s)"
  by (induction sched arbitrary: s) simp_all

lemma run_items [simp]: "items (run f h sched s) = items s"
  by (induction sched arbitrary: s) simp_all

lemma spawn_length_workers [simp]: "length (workers (spawn s)) = Suc (length (workers s))"
  by (simp add: spawn_eq)

lemma spawn_items [simp]: "items (spawn s) = items s"
  by (simp add: spawn_eq resume_defs)

lemma spawn_isAborted [simp]: "isAborted (spawn s) = isAborted s"
  by (simp add: spawn_eq resume_defs)

lemma launch_length_workers [simp]: "length (workers (launch n s)) = length (workers s) + n"
  by (induction n) simp_all

lemma launch_items [simp]: "items (launch n s) = items s"
  by (induction n) simp_all

lemma launch_isAborted [simp]: "isAborted (launch n s) = isAborted s"
  by (induction n) simp_all

lemma run_not_aborted:
  "never_stops h \<Longrightarrow> \<not> isAborted s \<Longrightarrow> \<not> isAborted (run f h sched s)"
  by (induction sched arbitrary: s) (simp_all add: step_not_aborted)

lemma reachable_not_aborted:
  "never_stops h \<Longrightarrow> \<not> isAborted (run f h sched (launch n (init xs)))"
  by (rule run_not_aborted) (simp_all add: init_def)

lemma settle_Returned:
  assumes "settle s = Returned out"
  shows "list_all is_Fulfilled (workers s)" and "rejection s = None"
    and "out_results out = results s" and "out_errors out = errors s"
    and "out_failedItems out = failedItems s" and "stoppedPrematurely out = isAborted s"
  using assms by (auto simp: settle_def split: option.splits if_splits)

lemma is_Fulfilled_iff: "is_Fulfilled w \<longleftrightarrow> w = Fulfilled"
  by (cases w) simp_all

lemma all_Fulfilled_in_flight: "list_all is_Fulfilled (workers s) \<Longrightarrow> in_flight s = 0"
  by (auto simp: in_flight_def list_all_iff is_Fulfilled_iff)

lemma all_Fulfilled_no_handler:
  "list_all is_Fulfilled ws \<Longrightarrow> sum_list (map awaiting_handler ws) = 0"
  by (auto simp: list_all_iff is_Fulfilled_iff)

lemma all_Fulfilled_no_failing_op:
  "list_all is_Fulfilled ws \<Longrightarrow> sum_list (map (failing_op f) ws) = 0"
  by (auto simp: list_all_iff is_Fulfilled_iff)

lemma step_failure:
  assumes "k < length (workers s)" and "workers s ! k = AwaitOp i item"
    and "iteratorFn item = Inl err"
  shows "errors (step iteratorFn errorHandler k s) = errors s @ [err]"
    and "failedItems (step iteratorFn errorHandler k s) = failedItems s @ [item]"
    and "results (step iteratorFn errorHandler k s) = results s"
    and "cursor (step iteratorFn (Some h) k s) = cursor s"
    and "workers (step iteratorFn (Some h) k s) ! k = AwaitHandler err i item"
  using assms by (auto simp: step_eq resume_defs split: option.splits)

lemma reachable_lengths:
  fixes xs :: "'t list" and iteratorFn :: "'t \<Rightarrow> 'e + 'r"
    and errorHandler :: "('e \<Rightarrow> 't \<Rightarrow> 'e + action) option" and sched :: "nat list" and n :: nat
  defines "r \<equiv> run iteratorFn errorHandler sched (launch n (init xs))"
  shows "length (errors r) = length (failedItems r)"
    and "length (results r) + length (errors r) \<le> cursor r"
    and "cursor r \<le> length xs"
proof -
  have snd: "sound iteratorFn errorHandler r" unfolding r_def by (rule reachable_sound)
  then show "length (errors r) = length (failedItems r)"
    unfolding sound_def paired_def by (blast dest: list_all2_lengthD)
  from snd show "length (results r) + length (errors r) \<le> cursor r"
    by (simp add: sound_def counted_def)
  from snd have "cursor r \<le> length (items r)" by (simp add: sound_def counted_def)
  then show "cursor r \<le> length xs" by (simp add: r_def init_def)
qed

section \<open>Validation of the arguments\<close>

text \<open>
  C4, as stated, at a concurrency that is not an integer: with concurrency 2.5 every
  assert passes, two workers start, and the call resolves after taking all three
  items of the input.
\<close>

theorem fractional_concurrency_counterexample:
  "validateInput (JIterable [1, 2, 3 :: nat]) (JFunction (\<lambda>x :: nat. Inr x :: unit + nat))
       (JNumber (Finite (5 / 2)) :: (nat, unit) js_value) (JUndefined :: (nat, unit) js_value)
     = (None :: unit failure option)
   \<and> promisePool (JIterable [1, 2, 3 :: nat]) (JFunction (\<lambda>x. Inr x :: unit + nat))
       (JNumber (Finite (5 / 2)) :: (nat, unit) js_value) JUndefined [0, 1, 0, 1, 0, 0, 0, 1]
     = \<lparr>status = Returned \<lparr>out_results = [1, 2, 3], out_errors = [], out_failedItems = [],
                               stoppedPrematurely = False\<rparr>,
        consumed = 3,
        events = [Pulled 0 0, Pulled 1 1, OpCalled 0 0, OpCalled 1 1, Pulled 0 2, OpCalled 0 2]\<rparr>"
  by (simp add: promisePool_def validateInput_def init_def spawn_def loop_head_def next_item_def
      step_def set_worker_def observe_def settle_def launch_2 array_length_five_halves
      del: array_length.simps)

text \<open>
  C4, amended: when the input is falsy (null, undefined, and the other falsy values),
  or the operation is not a function, or the concurrency (after the default 2 has
  replaced undefined) is not a number greater than zero, or the handler is truthy and
  not a function, the call is rejected with the assertion message of the first check
  that fails, whatever the schedule; no item has been taken from the input and no
  operation or handler has been called. The four checks follow the same policy.
\<close>

theorem validation_rejects:
  assumes "\<not> truthy input \<or> typeof iteratorFn \<noteq> ''function''
           \<or> \<not> is_positive_number (default_concurrency concurrency)
           \<or> (truthy errorHandler \<and> typeof errorHandler \<noteq> ''function'')"
  shows "promisePool input iteratorFn concurrency errorHandler sched =
           \<lparr>status = Raised (AssertionError
               (if \<not> truthy input then ''input is required''
                else if typeof iteratorFn \<noteq> ''function'' then ''iteratorFn must be a function''
                else if \<not> is_positive_number (default_concurrency concurrency)
                  then ''concurrency must be a positive number''
                else ''errorHandler must be a function'')),
            consumed = 0, events = []\<rparr>"
  using assms
  by (auto simp: promisePool_def validateInput_def failed_call_def Let_def
      dest: is_positive_number_typeof)

theorem validation_rejects_witness:
  "promisePool (JNull :: (nat, unit) js_value) (JFunction (\<lambda>x :: nat. Inr x :: unit + nat))
       (JNumber (Finite 2) :: (nat, unit) js_value) JUndefined [0, 1]
     = \<lparr>status = Raised (AssertionError ''input is required''), consumed = 0, events = []\<rparr>
   \<and> promisePool (JIterable [1, 2, 3 :: nat] :: (nat, unit) js_value) (JString ''not a function'' :: (nat, nat \<Rightarrow> unit + nat) js_value)
       (JNumber (Finite 2) :: (nat, unit) js_value) JUndefined [0, 1]
     = \<lparr>status = Raised (AssertionError ''iteratorFn must be a function''), consumed = 0, events = []\<rparr>
   \<and> promisePool (JIterable [1, 2, 3 :: nat] :: (nat, unit) js_value) (JFunction (\<lambda>x :: nat. Inr x :: unit + nat))
       (JNumber (Finite (- 5)) :: (nat, unit) js_value) JUndefined [0, 1]
     = \<lparr>status = Raised (AssertionError ''concurrency must be a positive number''), consumed = 0, events = []\<rparr>
   \<and> promisePool (JIterable [1, 2, 3 :: nat] :: (nat, unit) js_value) (JFunction (\<lambda>x :: nat. Inr x :: unit + nat))
       (JNumber (Finite 2) :: (nat, unit) js_value) (JString ''not a function'') [0, 1]
     = \<lparr>status = Raised (AssertionError ''errorHandler must be a function''), consumed = 0, events = []\<rparr>"
  using
    validation_rejects [of "JNull :: (nat, unit) js_value"
      "JFunction (\<lambda>x :: nat. Inr x :: unit + nat)" "JNumber (Finite 2) :: (nat, unit) js_value"
      JUndefined "[0, 1]"]
    validation_rejects [of "JIterable [1, 2, 3 :: nat] :: (nat, unit) js_value"
      "JString ''not a function'' :: (nat, nat \<Rightarrow> unit + nat) js_value"
      "JNumber (Finite 2) :: (nat, unit) js_value" JUndefined "[0, 1]"]
    validation_rejects [of "JIterable [1, 2, 3 :: nat] :: (nat, unit) js_value"
      "JFunction (\<lambda>x :: nat. Inr x :: unit + nat)"
      "JNumber (Finite (- 5)) :: (nat, unit) js_value" JUndefined "[0, 1]"]
    validation_rejects [of "JIterable [1, 2, 3 :: nat] :: (nat, unit) js_value"
      "JFunction (\<lambda>x :: nat. Inr x :: unit + nat)"
      "JNumber (Finite 2) :: (nat, unit) js_value" "JString ''not a function''" "[0, 1]"]
  by simp

section \<open>A success and the abort flag\<close>

text \<open>
  C6: when worker \<open>k\<close> resumes from an operation that succeeded with \<open>res\<close>, the
  result is appended to \<open>results\<close> if the abort flag is unset at that moment and is
  dropped if the flag is set; the two failure arrays are untouched.
\<close>

theorem success_appended_unless_aborted:
  assumes "k < length (workers s)" and "workers s ! k = AwaitOp i item"
    and "iteratorFn item = Inr res"
  shows "results (step iteratorFn errorHandler k s) =
           (if isAborted s then results s else results s @ [res])
         \<and> errors (step iteratorFn errorHandler k s) = errors s
         \<and> failedItems (step iteratorFn errorHandler k s) = failedItems s"
  using assms
  by (simp add: step_def set_worker_def loop_head_def next_item_def split: prod.splits)

theorem success_appended_unless_aborted_witness:
  "results (step (\<lambda>x :: nat. Inr (x * 2) :: string + nat) None 0
       \<lparr>items = [1, 2], cursor = 2, results = [2], failedItems = [], errors = [],
        isAborted = False, workers = [AwaitOp 1 2, Fulfilled], rejection = None,
        trace = [Pulled 0 0, Pulled 1 1, OpCalled 1 0, OpCalled 0 1]\<rparr>) = [2, 4]
   \<and> results (step (\<lambda>x :: nat. Inr (x * 2) :: string + nat) None 0
       \<lparr>items = [1, 2], cursor = 2, results = [], failedItems = [1], errors = [''Boom''],
        isAborted = True, workers = [AwaitOp 1 2, Fulfilled], rejection = None,
        trace = [Pulled 0 0, Pulled 1 1, OpCalled 1 0, OpCalled 0 1]\<rparr>) = []"
  using
    success_appended_unless_aborted [of 0
      "\<lparr>items = [1, 2 :: nat], cursor = 2, results = [2 :: nat], failedItems = [],
        errors = [] :: string list, isAborted = False, workers = [AwaitOp 1 2, Fulfilled],
        rejection = None, trace = [Pulled 0 0, Pulled 1 1, OpCalled 1 0, OpCalled 0 1]\<rparr>" 1 2
      "\<lambda>x :: nat. Inr (x * 2) :: string + nat" 4 None]
    success_appended_unless_aborted [of 0
      "\<lparr>items = [1, 2 :: nat], cursor = 2, results = [] :: nat list, failedItems = [1],
        errors = [''Boom''], isAborted = True, workers = [AwaitOp 1 2, Fulfilled],
        rejection = None, trace = [Pulled 0 0, Pulled 1 1, OpCalled 1 0, OpCalled 0 1]\<rparr>" 1 2
      "\<lambda>x :: nat. Inr (x * 2) :: string + nat" 4 None]
  by simp

section \<open>Counting results and errors\<close>

text \<open>
  C1: with at least one worker and a handler that never answers with the stop signal
  (or no handler), whenever the call returns an outcome over an input of length
  \<open>M\<close>, the outcome has \<open>results.length + errors.length = M\<close> and
  \<open>failedItems.length = errors.length\<close>, and \<open>stoppedPrematurely\<close> is false.
\<close>

theorem completeness_without_abort:
  assumes workers: "0 < n" and handler: "never_stops errorHandler"
    and returned: "settle (run iteratorFn errorHandler sched (launch n (init xs))) = Returned out"
  shows "length (out_results out) + length (out_errors out) = length xs
         \<and> length (out_failedItems out) = length (out_errors out)
         \<and> \<not> stoppedPrematurely out"
proof -
  let ?s = "run iteratorFn errorHandler sched (launch n (init xs))"
  have snd: "sound iteratorFn errorHandler ?s" by (rule reachable_sound)
  have live: "\<not> isAborted ?s" using handler by (rule reachable_not_aborted)
  note r = settle_Returned [OF returned]
  have "0 < length (workers ?s)" using workers by (simp add: init_def)
  moreover from this r(1) have "workers ?s ! 0 = Fulfilled"
    by (simp add: list_all_length is_Fulfilled_iff)
  ultimately have "cursor ?s = length (items ?s)"
    using snd live unfolding sound_def drained_def by blast
  then have exhausted: "cursor ?s = length xs" by (simp add: init_def)
  have "length (results ?s) + length (errors ?s) + in_flight ?s = cursor ?s"
    using snd live by (simp add: sound_def counted_def)
  with exhausted all_Fulfilled_in_flight [OF r(1)]
  have total: "length (results ?s) + length (errors ?s) = length xs" by simp
  have "length (errors ?s) = length (failedItems ?s)"
    using snd unfolding sound_def paired_def by (blast dest: list_all2_lengthD)
  with total live show ?thesis by (simp add: r)
qed

theorem completeness_without_abort_witness:
  "settle (run boom_on_two None [0, 1, 0, 1, 0, 0, 0, 1] (launch 2 (init [1, 2, 3]))) =
     Returned \<lparr>out_results = [2, 6], out_errors = [''Boom''], out_failedItems = [2],
               stoppedPrematurely = False\<rparr>
   \<and> length [2, 6 :: nat] + length [''Boom''] = length [1, 2, 3 :: nat]"
proof -
  have ret: "settle (run boom_on_two None [0, 1, 0, 1, 0, 0, 0, 1] (launch 2 (init [1, 2, 3]))) =
     Returned \<lparr>out_results = [2, 6], out_errors = [''Boom''], out_failedItems = [2],
               stoppedPrematurely = False\<rparr>"
    unfolding run_no_handler by (simp add: settle_def)
  have "0 < (2 :: nat)" and "never_stops (None :: (string \<Rightarrow> nat \<Rightarrow> string + action) option)"
    by (simp_all add: never_stops_def)
  from completeness_without_abort [OF this ret] ret show ?thesis by simp
qed

text \<open>
  C3: a worker that resumes from a failed operation appends the error to \<open>errors\<close>
  and the item to \<open>failedItems\<close>, one entry each, whether or not the abort flag is
  set. In every state a run can reach, and so in every returned outcome,
  \<open>errors.length = failedItems.length\<close> and \<open>results.length + errors.length\<close> is at
  most the number of items taken from the input.
\<close>

theorem failure_recorded_unconditionally:
  fixes xs :: "'t list" and iteratorFn :: "'t \<Rightarrow> 'e + 'r"
    and errorHandler :: "('e \<Rightarrow> 't \<Rightarrow> 'e + action) option" and sched :: "nat list" and n :: nat
  defines "r \<equiv> run iteratorFn errorHandler sched (launch n (init xs))"
  shows "(\<forall>k (s :: ('t, 'r, 'e) pool) i item err.
            k < length (workers s) \<longrightarrow> workers s ! k = AwaitOp i item
              \<longrightarrow> iteratorFn item = Inl err
              \<longrightarrow> errors (step iteratorFn errorHandler k s) = errors s @ [err]
                  \<and> failedItems (step iteratorFn errorHandler k s) = failedItems s @ [item])
         \<and> length (errors r) = length (failedItems r)
         \<and> length (results r) + length (errors r) \<le> cursor r
         \<and> (\<forall>out. settle r = Returned out
               \<longrightarrow> length (out_errors out) = length (out_failedItems out)
                   \<and> length (out_results out) + length (out_errors out) \<le> cursor r)"
proof -
  have len: "length (errors r) = length (failedItems r)"
    and le: "length (results r) + length (errors r) \<le> cursor r"
    unfolding r_def by (rule reachable_lengths)+
  have outs: "length (out_errors out) = length (out_failedItems out)
      \<and> length (out_results out) + length (out_errors out) \<le> cursor r"
    if "settle r = Returned out" for out
    using len le by (simp add: settle_Returned(3-5) [OF that])
  have appended: "errors (step iteratorFn errorHandler k s) = errors s @ [err]
      \<and> failedItems (step iteratorFn errorHandler k s) = failedItems s @ [item]"
    if "k < length (workers s)" and "workers s ! k = AwaitOp i item"
      and "iteratorFn item = Inl err" for k and s :: "('t, 'r, 'e) pool" and i item err
    using that by (simp add: step_failure(1,2))
  show ?thesis
    using len le outs appended by blast
qed

theorem failure_recorded_unconditionally_witness:
  "isAborted aborted_with_op
   \<and> errors (step always_fails (Some stop_handler) 0 aborted_with_op) = [''Boom'', ''Stop'']
   \<and> failedItems (step always_fails (Some stop_handler) 0 aborted_with_op) = [2, 1]
   \<and> length (errors (run always_fails (Some stop_handler) [0, 1, 1, 1] (launch 2 (init [1, 2, 3]))))
       = length (failedItems (run always_fails (Some stop_handler) [0, 1, 1, 1] (launch 2 (init [1, 2, 3]))))"
proof -
  note t = failure_recorded_unconditionally
    [of always_fails "Some stop_handler" "[0, 1, 1, 1]" 2 "[1, 2, 3]"]
  have "0 < length (workers aborted_with_op)" and "workers aborted_with_op ! 0 = AwaitOp 0 1"
    and "always_fails 1 = Inl ''Stop''"
    by (simp_all add: aborted_with_op_def always_fails_def)
  with t [THEN conjunct1, rule_format, of 0 aborted_with_op 0 1 "''Stop''"]
  have "errors (step always_fails (Some stop_handler) 0 aborted_with_op) =
          errors aborted_with_op @ [''Stop'']
      \<and> failedItems (step always_fails (Some stop_handler) 0 aborted_with_op) =
          failedItems aborted_with_op @ [1]"
    by blast
  with t [THEN conjunct2, THEN conjunct1] show ?thesis
    by (simp add: aborted_with_op_def)
qed

text \<open>
  C10: in every state a run can reach, and in every returned outcome, \<open>errors[i]\<close>
  is what the operation throws on \<open>failedItems[i]\<close>, for every index \<open>i\<close>.
\<close>

theorem errors_answer_failed_items:
  fixes xs :: "'t list" and iteratorFn :: "'t \<Rightarrow> 'e + 'r"
    and errorHandler :: "('e \<Rightarrow> 't \<Rightarrow> 'e + action) option" and sched :: "nat list" and n :: nat
  defines "r \<equiv> run iteratorFn errorHandler sched (launch n (init xs))"
  shows "length (errors r) = length (failedItems r)
         \<and> (\<forall>i < length (errors r). iteratorFn (failedItems r ! i) = Inl (errors r ! i))
         \<and> (\<forall>out. settle r = Returned out
               \<longrightarrow> (\<forall>i < length (out_errors out).
                      iteratorFn (out_failedItems out ! i) = Inl (out_errors out ! i)))"
proof -
  have "sound iteratorFn errorHandler r" unfolding r_def by (rule reachable_sound)
  then have p: "list_all2 (\<lambda>e x. iteratorFn x = Inl e) (errors r) (failedItems r)"
    by (simp add: sound_def paired_def)
  then have "length (errors r) = length (failedItems r)"
    and "\<forall>i < length (errors r). iteratorFn (failedItems r ! i) = Inl (errors r ! i)"
    by (simp_all add: list_all2_conv_all_nth)
  moreover have "iteratorFn (out_failedItems out ! i) = Inl (out_errors out ! i)"
    if "settle r = Returned out" and "i < length (out_errors out)" for out i
    using p that(2) by (simp add: settle_Returned(4,5) [OF that(1)] list_all2_conv_all_nth)
  ultimately show ?thesis by blast
qed

theorem errors_answer_failed_items_witness:
  "length (errors (run boom_on_two None [0, 1, 0, 1, 0, 0, 0, 1] (launch 2 (init [1, 2, 3])))) = 1
   \<and> boom_on_two
       (failedItems (run boom_on_two None [0, 1, 0, 1, 0, 0, 0, 1] (launch 2 (init [1, 2, 3]))) ! 0)
     = Inl (errors (run boom_on_two None [0, 1, 0, 1, 0, 0, 0, 1] (launch 2 (init [1, 2, 3]))) ! 0)"
proof -
  note t = errors_answer_failed_items [of boom_on_two None "[0, 1, 0, 1, 0, 0, 0, 1]" 2 "[1, 2, 3]"]
  have len: "length (errors (run boom_on_two None [0, 1, 0, 1, 0, 0, 0, 1] (launch 2 (init [1, 2, 3])))) = 1"
    unfolding run_no_handler by simp
  then have "0 < length (errors (run boom_on_two None [0, 1, 0, 1, 0, 0, 0, 1] (launch 2 (init [1, 2, 3]))))"
    by simp
  with t [THEN conjunct2, THEN conjunct1, rule_format, of 0] len show ?thesis by blast
qed

section \<open>The abort flag\<close>

text \<open>
  C8: a worker that resumes from the handler sets the abort flag exactly when the
  handler's value is \<open>POOL_STOP_SIGNAL\<close>; no other step sets the flag; and with no
  handler, or a handler that never answers with the signal, no state of the run is
  aborted and every returned outcome has \<open>stoppedPrematurely = false\<close>.
\<close>

theorem abort_only_on_stop_signal:
  fixes xs :: "'t list" and iteratorFn :: "'t \<Rightarrow> 'e + 'r"
    and errorHandler :: "('e \<Rightarrow> 't \<Rightarrow> 'e + action) option" and sched :: "nat list" and n :: nat
  defines "r \<equiv> run iteratorFn errorHandler sched (launch n (init xs))"
  shows "(\<forall>k (s :: ('t, 'r, 'e) pool) err i item (h :: 'e \<Rightarrow> 't \<Rightarrow> 'e + action) a.
            k < length (workers s) \<longrightarrow> workers s ! k = AwaitHandler err i item
              \<longrightarrow> h err item = Inr a \<longrightarrow> \<not> isAborted s
              \<longrightarrow> (isAborted (step iteratorFn (Some h) k s) \<longleftrightarrow> a = POOL_STOP_SIGNAL))
         \<and> (\<forall>k (s :: ('t, 'r, 'e) pool).
               \<not> isAborted s \<longrightarrow> isAborted (step iteratorFn errorHandler k s)
               \<longrightarrow> (\<exists>h err i item. errorHandler = Some h \<and> k < length (workers s)
                      \<and> workers s ! k = AwaitHandler err i item
                      \<and> h err item = Inr POOL_STOP_SIGNAL))
         \<and> (never_stops errorHandler
               \<longrightarrow> \<not> isAborted r
                   \<and> (\<forall>out. settle r = Returned out \<longrightarrow> \<not> stoppedPrematurely out))"
proof (intro conjI allI impI)
  fix k and s :: "('t, 'r, 'e) pool" and err i item and h :: "'e \<Rightarrow> 't \<Rightarrow> 'e + action" and a
  assume "k < length (workers s)" and "workers s ! k = AwaitHandler err i item"
    and "h err item = Inr a" and "\<not> isAborted s"
  then show "isAborted (step iteratorFn (Some h) k s) \<longleftrightarrow> a = POOL_STOP_SIGNAL"
    by (simp add: step_eq resume_defs)
next
  fix k and s :: "('t, 'r, 'e) pool"
  assume live: "\<not> isAborted s" and aborted: "isAborted (step iteratorFn errorHandler k s)"
  have k: "k < length (workers s)"
    using live aborted by (cases "k < length (workers s)") (simp_all add: step_out_of_range)
  show "\<exists>h err i item. errorHandler = Some h \<and> k < length (workers s)
          \<and> workers s ! k = AwaitHandler err i item \<and> h err item = Inr POOL_STOP_SIGNAL"
    using live aborted k
    by (cases "workers s ! k" rule: worker_cases)
      (auto simp: step_eq resume_defs split: option.splits sum.splits if_splits)
next
  assume "never_stops errorHandler"
  then show "\<not> isAborted r" unfolding r_def by (rule reachable_not_aborted)
next
  fix out
  assume "never_stops errorHandler" and ret: "settle r = Returned out"
  then have "\<not> isAborted r" unfolding r_def by (simp add: reachable_not_aborted)
  then show "\<not> stoppedPrematurely out" by (simp add: settle_Returned(6) [OF ret])
qed

theorem abort_only_on_stop_signal_witness:
  "isAborted (step boom_on_two (Some stop_handler) 1 awaiting_stop)
   \<and> \<not> isAborted (step boom_on_two (Some quiet_handler) 1 awaiting_stop)
   \<and> \<not> isAborted (run boom_on_two (Some quiet_handler) [0, 1, 0, 1, 1, 1, 0, 0, 0]
         (launch 2 (init [1, 2, 3])))
   \<and> \<not> stoppedPrematurely \<lparr>out_results = [2, 6 :: nat], out_errors = [''Boom''],
         out_failedItems = [2 :: nat], stoppedPrematurely = False\<rparr>"
proof -
  note t = abort_only_on_stop_signal
    [of boom_on_two "Some quiet_handler" "[0, 1, 0, 1, 1, 1, 0, 0, 0]" 2 "[1, 2, 3]"]
  have pre: "1 < length (workers awaiting_stop)"
    "workers awaiting_stop ! 1 = AwaitHandler ''Boom'' 1 2" "\<not> isAborted awaiting_stop"
    by (simp_all add: awaiting_stop_def)
  have "stop_handler ''Boom'' 2 = Inr POOL_STOP_SIGNAL" by (simp add: stop_handler_def)
  with pre t [THEN conjunct1, rule_format, of 1 awaiting_stop "''Boom''" 1 2 stop_handler
      POOL_STOP_SIGNAL]
  have a: "isAborted (step boom_on_two (Some stop_handler) 1 awaiting_stop)" by blast
  have "quiet_handler ''Boom'' 2 = Inr JUndefined" and "JUndefined \<noteq> POOL_STOP_SIGNAL"
    by (simp_all add: quiet_handler_def POOL_STOP_SIGNAL_def)
  with pre t [THEN conjunct1, rule_format, of 1 awaiting_stop "''Boom''" 1 2 quiet_handler
      JUndefined]
  have b: "\<not> isAborted (step boom_on_two (Some quiet_handler) 1 awaiting_stop)" by blast
  have quiet: "never_stops (Some quiet_handler)"
    by (simp add: never_stops_def quiet_handler_def POOL_STOP_SIGNAL_def)
  have ret: "settle (run boom_on_two (Some quiet_handler) [0, 1, 0, 1, 1, 1, 0, 0, 0]
      (launch 2 (init [1, 2, 3]))) =
    Returned \<lparr>out_results = [2, 6], out_errors = [''Boom''], out_failedItems = [2],
               stoppedPrematurely = False\<rparr>"
    unfolding run_quiet_handler by (simp add: settle_def)
  from t [THEN conjunct2, THEN conjunct2, rule_format, OF quiet]
  have c: "\<not> isAborted (run boom_on_two (Some quiet_handler) [0, 1, 0, 1, 1, 1, 0, 0, 0]
         (launch 2 (init [1, 2, 3])))"
    and d: "\<And>out. settle (run boom_on_two (Some quiet_handler) [0, 1, 0, 1, 1, 1, 0, 0, 0]
         (launch 2 (init [1, 2, 3]))) = Returned out \<Longrightarrow> \<not> stoppedPrematurely out"
    by blast+
  from a b c d [OF ret] show ?thesis by blast
qed

section \<open>Handlers are awaited\<close>

text \<open>
  C7: when the call returns an outcome, every handler call has settled: no worker
  still awaits a handler, the settled handler calls are as many as the handler calls,
  and with a handler there is one call per recorded error. A worker whose operation
  failed waits for the handler and takes no new item meanwhile.
\<close>

theorem handlers_settled_before_return:
  fixes xs :: "'t list" and iteratorFn :: "'t \<Rightarrow> 'e + 'r"
    and errorHandler :: "('e \<Rightarrow> 't \<Rightarrow> 'e + action) option" and sched :: "nat list" and n :: nat
  defines "r \<equiv> run iteratorFn errorHandler sched (launch n (init xs))"
  assumes returned: "settle r = Returned out"
  shows "length (filter is_HandlerSettled (trace r)) = length (filter is_HandlerCalled (trace r))
         \<and> sum_list (map awaiting_handler (workers r)) = 0
         \<and> length (filter is_HandlerCalled (trace r)) =
             (case errorHandler of None \<Rightarrow> 0 | Some h \<Rightarrow> length (out_errors out))
         \<and> (\<forall>k (s :: ('t, 'r, 'e) pool) i item err h.
               k < length (workers s) \<longrightarrow> workers s ! k = AwaitOp i item
                 \<longrightarrow> iteratorFn item = Inl err
                 \<longrightarrow> workers (step iteratorFn (Some h) k s) ! k = AwaitHandler err i item
                     \<and> cursor (step iteratorFn (Some h) k s) = cursor s)"
proof -
  have "sound iteratorFn errorHandler r" unfolding r_def by (rule reachable_sound)
  then have b: "handlers_balanced errorHandler r" by (simp add: sound_def)
  note ret = settle_Returned [OF returned]
  have none: "sum_list (map awaiting_handler (workers r)) = 0"
    using ret(1) by (rule all_Fulfilled_no_handler)
  with b show ?thesis
    unfolding handlers_balanced_def
    by (auto simp: ret(4) step_failure(4,5) split: option.splits)
qed

theorem handlers_settled_before_return_witness:
  "settle (run boom_on_two (Some quiet_handler) [0, 1, 0, 1, 1, 1, 0, 0, 0]
      (launch 2 (init [1, 2, 3]))) =
    Returned \<lparr>out_results = [2, 6], out_errors = [''Boom''], out_failedItems = [2],
               stoppedPrematurely = False\<rparr>
   \<and> length (filter is_HandlerSettled (trace (run boom_on_two (Some quiet_handler)
        [0, 1, 0, 1, 1, 1, 0, 0, 0] (launch 2 (init [1, 2, 3]))))) = 1
   \<and> length (filter is_HandlerCalled (trace (run boom_on_two (Some quiet_handler)
        [0, 1, 0, 1, 1, 1, 0, 0, 0] (launch 2 (init [1, 2, 3]))))) = 1"
proof -
  have ret: "settle (run boom_on_two (Some quiet_handler) [0, 1, 0, 1, 1, 1, 0, 0, 0]
      (launch 2 (init [1, 2, 3]))) =
    Returned \<lparr>out_results = [2, 6], out_errors = [''Boom''], out_failedItems = [2],
               stoppedPrematurely = False\<rparr>"
    unfolding run_quiet_handler by (simp add: settle_def)
  from handlers_settled_before_return [OF ret] ret show ?thesis by simp
qed

section \<open>Dispatch of the items\<close>

text \<open>
  C9: in every state a run can reach, the positions taken from the input are
  \<open>0, 1, ..., cursor - 1\<close>, each taken once and by one worker; the operation is
  called at most once per position, by the worker that took it; and a worker that
  resumes while the abort flag is set takes no item.
\<close>

theorem exactly_once_dispatch:
  fixes xs :: "'t list" and iteratorFn :: "'t \<Rightarrow> 'e + 'r"
    and errorHandler :: "('e \<Rightarrow> 't \<Rightarrow> 'e + action) option" and sched :: "nat list" and n :: nat
  defines "r \<equiv> run iteratorFn errorHandler sched (launch n (init xs))"
  shows "map snd (pulls (trace r)) = [0..<cursor r]
         \<and> distinct (map snd (calls (trace r)))
         \<and> set (calls (trace r)) \<subseteq> set (pulls (trace r))
         \<and> (\<forall>k k' i. (k, i) \<in> set (pulls (trace r)) \<longrightarrow> (k', i) \<in> set (pulls (trace r))
               \<longrightarrow> k = k')
         \<and> (\<forall>k k' i. (k, i) \<in> set (calls (trace r)) \<longrightarrow> (k', i) \<in> set (calls (trace r))
               \<longrightarrow> k = k')
         \<and> (\<forall>k (s :: ('t, 'r, 'e) pool). isAborted s
               \<longrightarrow> cursor (step iteratorFn errorHandler k s) = cursor s
                   \<and> pulls (trace (step iteratorFn errorHandler k s)) = pulls (trace s))"
proof -
  have "sound iteratorFn errorHandler r" unfolding r_def by (rule reachable_sound)
  then have d: "dispatch_ok (trace r) (cursor r) (workers r)"
    by (simp add: sound_def dispatched_def)
  note dd = dispatch_okD(1-3) [OF d]
  have dp: "distinct (map snd (pulls (trace r)))" by (simp add: dd(1))
  have once_pulled: "k = k'"
    if "(k, i) \<in> set (pulls (trace r))" and "(k', i) \<in> set (pulls (trace r))" for k k' i
    using dp that by (rule pulled_once)
  have once_called: "k = k'"
    if "(k, i) \<in> set (calls (trace r))" and "(k', i) \<in> set (calls (trace r))" for k k' i
    using dd(2) that by (rule pulled_once)
  have no_pull: "cursor (step iteratorFn errorHandler k s) = cursor s
      \<and> pulls (trace (step iteratorFn errorHandler k s)) = pulls (trace s)"
    if "isAborted s" for k and s :: "('t, 'r, 'e) pool"
  proof (cases "k < length (workers s)")
    case True
    with that show ?thesis
      by (cases "workers s ! k" rule: worker_cases)
        (auto simp: step_eq resume_defs split: option.splits sum.splits)
  qed (simp add: step_out_of_range)
  show ?thesis
    using dd once_pulled once_called no_pull by blast
qed

theorem exactly_once_dispatch_witness:
  "map snd (pulls (trace (run boom_on_two (Some stop_handler) [0, 1, 1, 1]
      (launch 2 (init [1, 2, 3]))))) = [0, 1]
   \<and> calls (trace (run boom_on_two (Some stop_handler) [0, 1, 1, 1]
      (launch 2 (init [1, 2, 3])))) = [(0, 0), (1, 1)]
   \<and> isAborted aborted_with_op
   \<and> cursor (step boom_on_two (Some stop_handler) 0 aborted_with_op) = 2"
proof -
  note t = exactly_once_dispatch [of boom_on_two "Some stop_handler" "[0, 1, 1, 1]" 2 "[1, 2, 3]"]
  have ab: "isAborted aborted_with_op" by (simp add: aborted_with_op_def)
  with t [THEN conjunct2, THEN conjunct2, THEN conjunct2, THEN conjunct2, THEN conjunct2,
      rule_format, of aborted_with_op 0]
  have "cursor (step boom_on_two (Some stop_handler) 0 aborted_with_op) = cursor aborted_with_op"
    by blast
  moreover have "cursor (run boom_on_two (Some stop_handler) [0, 1, 1, 1]
      (launch 2 (init [1, 2, 3]))) = 2"
    and "calls (trace (run boom_on_two (Some stop_handler) [0, 1, 1, 1]
      (launch 2 (init [1, 2, 3])))) = [(0, 0), (1, 1)]"
    unfolding run_stop_handler by simp_all
  ultimately show ?thesis
    using t [THEN conjunct1] ab by (simp add: aborted_with_op_def upt_rec)
qed

end
